theory Spec2Isabelle
  imports Main "HOL-Library.AList" "HOL-Library.Char_ord" "HOL-Library.List_Lexorder"
    "HOL-Library.Log_Nat"
begin

section \<open>The record abstraction\<close>

text \<open>
  The engine works on a pydicom dataset: a dictionary from tag to data element. It looks
  tags up by keyword (\<^verbatim>\<open>'PatientName' in dicom_file\<close>) and asks every key whether it is
  private (\<^verbatim>\<open>tag.is_private\<close>). A standard tag is identified here by its keyword; a
  private (vendor) tag has no keyword and is identified by a number.
\<close>

datatype tag = Keyword string | Private nat

fun is_private :: "tag \<Rightarrow> bool" where
  "is_private (Keyword k) = False"
| "is_private (Private n) = True"

text \<open>
  A data element, as the engine meets it. \<open>Text s\<close> holds a Python \<^verbatim>\<open>str\<close>, whose
  \<^verbatim>\<open>str()\<close> is itself. \<open>Obj r\<close> holds any other value object; \<open>r\<close> is what
  stringifying it gives: \<open>Some s\<close>, or \<open>None\<close> when that raises. \<open>Malformed msg\<close> is an
  element that the codec has read from the file and cannot convert: the dataset holds it,
  counts it and deletes it like any other, and \<^verbatim>\<open>dicom_file[tag]\<close> raises an exception
  with the text \<open>msg\<close>.
\<close>

datatype dvalue = Text string | Obj "string option" | Malformed string

text \<open>
  \<^verbatim>\<open>str(dicom_file[tag].value)\<close>: the text, or \<open>None\<close> when reading the element or
  stringifying its value raises.
\<close>

fun py_str :: "dvalue \<Rightarrow> string option" where
  "py_str (Text s) = Some s"
| "py_str (Obj r) = r"
| "py_str (Malformed msg) = None"

text \<open>
  A dataset is a dictionary, kept as an association list in insertion order; a dictionary
  holds each key once.
\<close>

type_synonym dataset = "(tag \<times> dvalue) list"

definition contains :: "dataset \<Rightarrow> tag \<Rightarrow> bool" where
  "contains ds t = (t \<in> set (map fst ds))"

definition getitem :: "dataset \<Rightarrow> tag \<Rightarrow> dvalue option" where
  "getitem ds t = map_of ds t"

definition delitem :: "dataset \<Rightarrow> tag \<Rightarrow> dataset" where
  "delitem ds t = AList.delete t ds"

definition set_value :: "dataset \<Rightarrow> tag \<Rightarrow> dvalue \<Rightarrow> dataset" where
  "set_value ds t v = AList.update t v ds"

definition keys :: "dataset \<Rightarrow> tag list" where
  "keys ds = map fst ds"

text \<open>
  \<^verbatim>\<open>dicom_file[tag]\<close> for a tag that the dataset holds: the element, or the text of the
  exception that converting it raises.
\<close>

fun element :: "dvalue \<Rightarrow> string + dvalue" where
  "element (Malformed msg) = Inl msg"
| "element v = Inr v"

text \<open>
  A step that may raise: \<open>Inr\<close> the state after it, or \<open>Inl\<close> the text of the exception
  with the state as the exception leaves it (the dataset is mutated in place, so what was
  done before the exception stays done).
\<close>

type_synonym 's attempt = "(string \<times> 's) + 's"

fun state_of :: "'s attempt \<Rightarrow> 's" where
  "state_of (Inl (msg, s)) = s"
| "state_of (Inr s) = s"

text \<open>A loop whose body may raise: the first exception ends it.\<close>

fun try_fold :: "('a \<Rightarrow> 's \<Rightarrow> 's attempt) \<Rightarrow> 'a list \<Rightarrow> 's \<Rightarrow> 's attempt" where
  "try_fold f [] s = Inr s"
| "try_fold f (x # xs) s = (case f x s of Inl e \<Rightarrow> Inl e | Inr s' \<Rightarrow> try_fold f xs s')"

section \<open>The rule set\<close>

text \<open>
  \<^verbatim>\<open>ANONYMIZATION_RULES\<close>: the list under \<^verbatim>\<open>'remove'\<close>, the dictionary under
  \<^verbatim>\<open>'replace'\<close> (keyword and literal, in insertion order) and the keys of the dictionary
  under \<^verbatim>\<open>'date_shift'\<close> (its values are never read).
\<close>

record rules =
  remove :: "string list"
  replace :: "(string \<times> string) list"
  date_shift :: "string list"

definition ANONYMIZATION_RULES :: rules where
  "ANONYMIZATION_RULES = \<lparr>
     remove = [
       ''PatientName'', ''PatientID'', ''PatientBirthDate'', ''PatientAge'',
       ''PatientSex'', ''PatientAddress'', ''PatientTelephoneNumbers'',
       ''StudyInstanceUID'', ''SeriesInstanceUID'', ''StudyDate'', ''SeriesDate'',
       ''ContentDate'', ''StudyTime'', ''SeriesTime'', ''ContentTime'',
       ''AcquisitionDateTime'', ''StudyDescription'', ''SeriesDescription'',
       ''ReferringPhysicianName'', ''PerformingPhysicianName'', ''OperatorsName'',
       ''InstitutionName'', ''InstitutionAddress'', ''Manufacturer'',
       ''ManufacturerModelName'', ''DeviceSerialNumber'', ''StationName''],
     replace = [
       (''PatientName'', ''ANONYMIZED''),
       (''PatientID'', ''ANON-ID-001''),
       (''ReferringPhysicianName'', ''ANONYMIZED''),
       (''PerformingPhysicianName'', ''ANONYMIZED''),
       (''OperatorsName'', ''ANONYMIZED''),
       (''InstitutionName'', ''ANONYMIZED'')],
     date_shift = [
       ''StudyDate'', ''SeriesDate'', ''PatientBirthDate'', ''ContentDate'',
       ''AcquisitionDate'']
   \<rparr>"

section \<open>Decimal text of a number\<close>

text \<open>Python's \<^verbatim>\<open>str\<close> of a non-negative integer.\<close>

definition digit :: "nat \<Rightarrow> char" where
  "digit d = ''0123456789'' ! d"

function str_nat :: "nat \<Rightarrow> string" where
  "str_nat n = (if n < 10 then [digit n] else str_nat (n div 10) @ [digit (n mod 10)])"
  by pat_completeness auto
termination
  by (relation "measure id") auto

declare str_nat.simps [simp del]

section \<open>The anonymization engine\<close>

text \<open>
  \<^verbatim>\<open>generate_uid()\<close> of the codec library returns a fresh identifier on every call. The
  generator is kept as a counter: the identifier drawn at state \<open>g\<close> is the text
  \<open>2.25.g\<close>, and the state moves on.
\<close>

definition generate_uid :: "nat \<Rightarrow> dvalue \<times> nat" where
  "generate_uid g = (Text (''2.25.'' @ str_nat g), Suc g)"

text \<open>The body of each loop of \<^verbatim>\<open>anonymize_dicom\<close>, on the dataset and the count.\<close>

fun remove_step :: "string \<Rightarrow> dataset \<times> nat \<Rightarrow> dataset \<times> nat" where
  "remove_step k (ds, c) =
     (if contains ds (Keyword k) then (delitem ds (Keyword k), c + 1) else (ds, c))"

text \<open>
  \<^verbatim>\<open>dicom_file[tag].value = replacement_value\<close> reads the element first, outside any inner
  \<^verbatim>\<open>try\<close>.
\<close>

fun replace_step :: "string \<times> string \<Rightarrow> dataset \<times> nat \<Rightarrow> (dataset \<times> nat) attempt" where
  "replace_step (k, replacement_value) (ds, c) =
     (if contains ds (Keyword k) then
        (case getitem ds (Keyword k) of
           None \<Rightarrow> Inr (ds, c)
         | Some v \<Rightarrow>
            (case element v of
               Inl msg \<Rightarrow> Inl (msg, (ds, c))
             | Inr data_element \<Rightarrow>
                 Inr (set_value ds (Keyword k) (Text replacement_value), c + 1)))
      else Inr (ds, c))"

text \<open>
  The date shift reads and stringifies the value inside its own \<^verbatim>\<open>try\<close>; the bare
  \<^verbatim>\<open>except: pass\<close> leaves dataset and count as they were. \<^verbatim>\<open>len\<close> and the slice count
  code points, \<open>length\<close> and \<open>take\<close> count characters; on the ASCII text of a date they
  agree.
\<close>

fun shift_step :: "string \<Rightarrow> dataset \<times> nat \<Rightarrow> dataset \<times> nat" where
  "shift_step k (ds, c) =
     (if contains ds (Keyword k) then
        (case getitem ds (Keyword k) of
           None \<Rightarrow> (ds, c)
         | Some v \<Rightarrow>
            (case py_str v of
               None \<Rightarrow> (ds, c)
             | Some current_value \<Rightarrow>
                 if length current_value \<ge> 8
                 then (set_value ds (Keyword k) (Text (take 4 current_value @ ''0101'')), c + 1)
                 else (ds, c)))
      else (ds, c))"

fun purge_step :: "tag \<Rightarrow> dataset \<times> nat \<Rightarrow> dataset \<times> nat" where
  "purge_step t (ds, c) = (delitem ds t, c + 1)"

text \<open>
  \<^verbatim>\<open>dicom_file.SOPInstanceUID = generate_uid()\<close>: the identifier is drawn first; the
  assignment to an attribute that the dataset holds then reads the element, outside any
  inner \<^verbatim>\<open>try\<close>, and sets its value.
\<close>

fun regenerate :: "string \<Rightarrow> dataset \<times> nat \<Rightarrow> (dataset \<times> nat) attempt" where
  "regenerate k (ds, g) =
     (if contains ds (Keyword k) then
        (case generate_uid g of (u, g') \<Rightarrow>
           (case getitem ds (Keyword k) of
              None \<Rightarrow> Inr (ds, g')
            | Some v \<Rightarrow>
               (case element v of
                  Inl msg \<Rightarrow> Inl (msg, (ds, g'))
                | Inr data_element \<Rightarrow> Inr (set_value ds (Keyword k) u, g'))))
      else Inr (ds, g))"

definition remove_tags :: "rules \<Rightarrow> dataset \<times> nat \<Rightarrow> dataset \<times> nat" where
  "remove_tags rs s = fold remove_step (remove rs) s"

definition replace_tags :: "rules \<Rightarrow> dataset \<times> nat \<Rightarrow> (dataset \<times> nat) attempt" where
  "replace_tags rs s = try_fold replace_step (replace rs) s"

definition shift_dates :: "rules \<Rightarrow> dataset \<times> nat \<Rightarrow> dataset \<times> nat" where
  "shift_dates rs s = fold shift_step (date_shift rs) s"

definition purge_private :: "dataset \<times> nat \<Rightarrow> dataset \<times> nat" where
  "purge_private s =
     (let tags_to_remove = filter is_private (keys (fst s)) in fold purge_step tags_to_remove s)"

definition regenerate_uids :: "dataset \<times> nat \<Rightarrow> (dataset \<times> nat) attempt" where
  "regenerate_uids s =
     try_fold regenerate [''SOPInstanceUID'', ''StudyInstanceUID'', ''SeriesInstanceUID''] s"

text \<open>
  The \<^verbatim>\<open>try\<close> block of \<^verbatim>\<open>anonymize_dicom\<close>: the four mutating passes and the
  regeneration, in the order of the source. \<open>Inr\<close> is the dataset, the count and the
  generator state at the \<^verbatim>\<open>return\<close>; \<open>Inl\<close> is the text of the exception with the
  dataset and the generator state at that moment.
\<close>

definition anonymize_dataset ::
  "rules \<Rightarrow> dataset \<Rightarrow> nat \<Rightarrow> (string \<times> dataset \<times> nat) + (dataset \<times> nat \<times> nat)" where
  "anonymize_dataset rs ds g =
     (case replace_tags rs (remove_tags rs (ds, 0)) of
        Inl (msg, (ds', anonymized_count)) \<Rightarrow> Inl (msg, ds', g)
      | Inr s \<Rightarrow>
         (case purge_private (shift_dates rs s) of
            (ds', anonymized_count) \<Rightarrow>
              (case regenerate_uids (ds', g) of
                 Inl (msg, (ds'', g')) \<Rightarrow> Inl (msg, ds'', g')
               | Inr (ds'', g') \<Rightarrow> Inr (ds'', anonymized_count, g'))))"

text \<open>
  \<^verbatim>\<open>anonymize_dicom\<close> mutates the dataset in place and returns \<^verbatim>\<open>(True, count)\<close>, or
  \<^verbatim>\<open>(False, str(e))\<close> when an exception reaches the outer \<^verbatim>\<open>except\<close>. The model
  returns the pair, the dataset as it is afterwards, and the generator state. The second
  component of the pair is \<open>Inr count\<close> or \<open>Inl message\<close>.
\<close>

definition anonymize_dicom ::
  "rules \<Rightarrow> dataset \<Rightarrow> nat \<Rightarrow> (bool \<times> (string + nat)) \<times> dataset \<times> nat" where
  "anonymize_dicom rs dicom_file g =
     (case anonymize_dataset rs dicom_file g of
        Inl (msg, ds', g') \<Rightarrow> ((False, Inl msg), ds', g')
      | Inr (ds', anonymized_count, g') \<Rightarrow> ((True, Inr anonymized_count), ds', g'))"

section \<open>Files and discovery\<close>

text \<open>
  A path is the list of its components from the root. The file system is a tree of files
  and directories; \<open>Locked\<close> is a directory that the process may neither search nor list,
  so that what it holds does not matter here.
\<close>

type_synonym path = "string list"

datatype node = File | Dir "(string \<times> node) list" | Locked

text \<open>\<^verbatim>\<open>str(path)\<close>, also the key that \<^verbatim>\<open>sorted\<close> compares.\<close>

definition path_str :: "path \<Rightarrow> string" where
  "path_str p = concat (map (\<lambda>c. CHR ''/'' # c) p)"

text \<open>
  The errors of \<^verbatim>\<open>stat\<close> that \<^verbatim>\<open>Path.exists()\<close> does not take for an answer, and
  the text of the \<^verbatim>\<open>OSError\<close> raised for them on a path.
\<close>

datatype os_error = ENAMETOOLONG | EACCES

fun os_message :: "os_error \<Rightarrow> path \<Rightarrow> string" where
  "os_message ENAMETOOLONG p =
     ''[Errno 36] File name too long: '' @ [CHR 0x27] @ path_str p @ [CHR 0x27]"
| "os_message EACCES p =
     ''[Errno 13] Permission denied: '' @ [CHR 0x27] @ path_str p @ [CHR 0x27]"

text \<open>
  \<^verbatim>\<open>stat\<close> walks the components. A component below a file, or one that the directory
  lacks, is not found. A component below a locked directory is refused, and so is a
  component of more than 255 characters.
\<close>

fun stat :: "node \<Rightarrow> path \<Rightarrow> os_error + node option" where
  "stat n [] = Inr (Some n)"
| "stat File (c # cs) = Inr None"
| "stat Locked (c # cs) = Inl EACCES"
| "stat (Dir entries) (c # cs) =
     (if 255 < length c then Inl ENAMETOOLONG
      else (case map_of entries c of None \<Rightarrow> Inr None | Some n \<Rightarrow> stat n cs))"

text \<open>\<^verbatim>\<open>path.exists()\<close>: true, false, or the text of the \<^verbatim>\<open>OSError\<close> it raises.\<close>

definition path_exists :: "node \<Rightarrow> path \<Rightarrow> string + bool" where
  "path_exists fs p =
     (case stat fs p of
        Inl err \<Rightarrow> Inl (os_message err p)
      | Inr None \<Rightarrow> Inr False
      | Inr (Some n) \<Rightarrow> Inr True)"

text \<open>The pattern \<^verbatim>\<open>*.dcm\<close>: the name ends in \<^verbatim>\<open>.dcm\<close>.\<close>

definition matches_dcm :: "string \<Rightarrow> bool" where
  "matches_dcm n = (4 \<le> length n \<and> drop (length n - 4) n = ''.dcm'')"

text \<open>
  \<^verbatim>\<open>path.rglob('*.dcm')\<close>: every entry below the directory, at any depth, whose name
  matches. On a file it yields nothing, and a directory that it may not list it passes
  over.
\<close>

fun rglob :: "path \<Rightarrow> node \<Rightarrow> path list"
  and rglob_entries :: "path \<Rightarrow> (string \<times> node) list \<Rightarrow> path list" where
  "rglob p File = []"
| "rglob p Locked = []"
| "rglob p (Dir entries) = rglob_entries p entries"
| "rglob_entries p [] = []"
| "rglob_entries p ((n, c) # entries) =
     (if matches_dcm n then [p @ [n]] else []) @ rglob (p @ [n]) c @ rglob_entries p entries"

text \<open>
  \<^verbatim>\<open>find_dicom_files\<close> has no \<^verbatim>\<open>try\<close>: an exception of \<^verbatim>\<open>path.exists()\<close> leaves
  it. \<open>Inr\<close> is the list returned, \<open>Inl\<close> the text of the exception.
\<close>

definition find_dicom_files :: "node \<Rightarrow> path \<Rightarrow> string + path list" where
  "find_dicom_files fs directory =
     (case path_exists fs directory of
        Inl msg \<Rightarrow> Inl msg
      | Inr found \<Rightarrow>
          let dicom_files =
            (if found then (case stat fs directory of Inr (Some n) \<Rightarrow> rglob directory n | _ \<Rightarrow> [])
             else [])
          in Inr (sort_key path_str dicom_files))"

text \<open>
  \<^verbatim>\<open>Path(p).name\<close>, \<^verbatim>\<open>Path(p).parent\<close> and \<^verbatim>\<open>Path(p).relative_to(base)\<close>, which
  raises \<^verbatim>\<open>ValueError\<close> on a path that is not below \<open>base\<close>.
\<close>

definition file_name :: "path \<Rightarrow> string" where
  "file_name p = (if p = [] then [] else last p)"

definition parent :: "path \<Rightarrow> path" where
  "parent p = butlast p"

definition relative_to :: "path \<Rightarrow> path \<Rightarrow> string + path" where
  "relative_to p base =
     (if take (length base) p = base then Inr (drop (length base) p)
      else Inl ([CHR 0x27] @ path_str p @ [CHR 0x27] @ '' is not in the subpath of ''
                @ [CHR 0x27] @ path_str base @ [CHR 0x27]))"

section \<open>Progress in double precision\<close>

text \<open>
  \<^verbatim>\<open>int((idx / len(dicom_files)) * 100)\<close> divides and multiplies in IEEE double precision:
  each operation gives the double nearest to the exact result, ties to the even mantissa.
  \<open>round_double\<close> is that rounding on the rationals, for the normal range (53 bits of
  mantissa); overflow and subnormal numbers are not reached by a progress value.
  \<^verbatim>\<open>int()\<close> truncates, which on a non-negative number is the floor. Inside the loop
  \<^verbatim>\<open>len(dicom_files)\<close> is positive.
\<close>

definition round_half_even :: "rat \<Rightarrow> int" where
  "round_half_even x =
     (let f = \<lfloor>x\<rfloor>; d = x - of_int f
      in if d < 1 / 2 then f else if 1 / 2 < d then f + 1 else if even f then f else f + 1)"

text \<open>The exponent of the binade of a positive rational: the floor of its binary logarithm.\<close>

definition binade :: "rat \<Rightarrow> int" where
  "binade x =
     (case quotient_of x of (a, b) \<Rightarrow>
        let e = bitlen a - bitlen b
        in if 2 powi e \<le> x then e else e - 1)"

definition round_double :: "rat \<Rightarrow> rat" where
  "round_double x =
     (if x = 0 then 0
      else let e = binade \<bar>x\<bar> - 52
           in sgn x * of_int (round_half_even (\<bar>x\<bar> / 2 powi e)) * 2 powi e)"

definition progress_percent :: "nat \<Rightarrow> nat \<Rightarrow> int" where
  "progress_percent idx n =
     \<lfloor>round_double (round_double (rat_of_nat idx / rat_of_nat n) * 100)\<rfloor>"

section \<open>The batch worker\<close>

text \<open>
  What the worker meets outside itself: the input tree, the codec's \<^verbatim>\<open>dcmread\<close> (the
  record, or the text of the exception), and for \<^verbatim>\<open>mkdir\<close> and \<^verbatim>\<open>save_as\<close> the text
  of the exception they raise on a path, if any.
\<close>

record env =
  tree :: node
  dcmread :: "path \<Rightarrow> string + dataset"
  mkdir_error :: "path \<Rightarrow> string option"
  save_error :: "path \<Rightarrow> string option"

record stats =
  total :: nat
  successful :: nat
  failed :: nat
  total_tags_removed :: int
  errors :: "string list"

datatype report = Success stats | Failure string

datatype signal = Progress int | Status string | Finished report

datatype fs_op = Mkdir path | Save path dataset

text \<open>
  What a run leaves behind: the signals emitted, in order, the directories made and files
  written, in order, and the state of the UID generator.
\<close>

record world =
  signals :: "signal list"
  fs_ops :: "fs_op list"
  gen :: nat

definition load_dicom :: "env \<Rightarrow> path \<Rightarrow> string + dataset" where
  "load_dicom e file_path =
     (case dcmread e file_path of
        Inl msg \<Rightarrow> Inl (''Error loading DICOM: '' @ msg)
      | Inr dicom_data \<Rightarrow> Inr dicom_data)"

text \<open>The two statements of a failure branch, and the two emissions that end an iteration.\<close>

definition record_failure :: "path \<Rightarrow> string \<Rightarrow> stats \<Rightarrow> stats" where
  "record_failure file_path msg st =
     st\<lparr>failed := failed st + 1, errors := errors st @ [file_name file_path @ '': '' @ msg]\<rparr>"

definition emit_progress :: "nat \<Rightarrow> nat \<Rightarrow> path \<Rightarrow> world \<Rightarrow> world" where
  "emit_progress idx n file_path w =
     w\<lparr>signals := signals w @
        [Progress (progress_percent idx n),
         Status (''Processing '' @ str_nat idx @ ''/'' @ str_nat n @ '': '' @ file_name file_path)]\<rparr>"

text \<open>
  The formatted \<^verbatim>\<open>result\<close> of the failure line: the message, or the digits of a count.
\<close>

fun format_result :: "string + nat \<Rightarrow> string" where
  "format_result (Inl msg) = msg"
| "format_result (Inr c) = str_nat c"

text \<open>
  One iteration of the loop over \<^verbatim>\<open>enumerate(dicom_files, 1)\<close>; \<open>n\<close> is
  \<^verbatim>\<open>len(dicom_files)\<close>. An exception in the \<^verbatim>\<open>try\<close> goes to the failure branch and
  then to the emissions; an engine failure ends the iteration with \<^verbatim>\<open>continue\<close>.
\<close>

fun process_file ::
  "env \<Rightarrow> path \<Rightarrow> path \<Rightarrow> nat \<Rightarrow> nat \<times> path \<Rightarrow> stats \<times> world \<Rightarrow> stats \<times> world" where
  "process_file e input_dir output_dir n (idx, file_path) (st, w) =
     (case load_dicom e file_path of
        Inl msg \<Rightarrow> (record_failure file_path msg st, emit_progress idx n file_path w)
      | Inr dicom_data \<Rightarrow>
          let original_tag_count = length dicom_data in
          (case anonymize_dicom ANONYMIZATION_RULES dicom_data (gen w) of
             ((success, result), dicom_data', g') \<Rightarrow>
               if \<not> success
               then (record_failure file_path (format_result result) st, w\<lparr>gen := g'\<rparr>)
               else
                 (case relative_to file_path input_dir of
                    Inl msg \<Rightarrow>
                      (record_failure file_path msg st,
                       emit_progress idx n file_path (w\<lparr>gen := g'\<rparr>))
                  | Inr relative_path \<Rightarrow>
                      let output_file = output_dir @ relative_path in
                      (case mkdir_error e (parent output_file) of
                         Some msg \<Rightarrow>
                           (record_failure file_path msg st,
                            emit_progress idx n file_path (w\<lparr>gen := g'\<rparr>))
                       | None \<Rightarrow>
                           (case save_error e output_file of
                              Some msg \<Rightarrow>
                                (record_failure file_path msg st,
                                 emit_progress idx n file_path
                                   (w\<lparr>gen := g', fs_ops := fs_ops w @ [Mkdir (parent output_file)]\<rparr>))
                            | None \<Rightarrow>
                                (st\<lparr>successful := successful st + 1,
                                    total_tags_removed := total_tags_removed st
                                      + (int original_tag_count - int (length dicom_data'))\<rparr>,
                                 emit_progress idx n file_path
                                   (w\<lparr>gen := g',
                                      fs_ops := fs_ops w @
                                        [Mkdir (parent output_file), Save output_file dicom_data']\<rparr>)))))))"

text \<open>
  \<^verbatim>\<open>AnonymizationWorker.run\<close>. An exception of discovery or of the first \<^verbatim>\<open>mkdir\<close>
  reaches the outer \<^verbatim>\<open>except\<close>, which reports its text.
\<close>

definition run :: "env \<Rightarrow> path \<Rightarrow> path \<Rightarrow> nat \<Rightarrow> world" where
  "run e input_dir output_dir g =
     (case find_dicom_files (tree e) input_dir of
        Inl msg \<Rightarrow> \<lparr>signals = [Finished (Failure msg)], fs_ops = [], gen = g\<rparr>
      | Inr dicom_files \<Rightarrow>
          if dicom_files = []
          then \<lparr>signals = [Finished (Failure ''No DICOM files found'')], fs_ops = [], gen = g\<rparr>
          else
            (case mkdir_error e output_dir of
               Some msg \<Rightarrow> \<lparr>signals = [Finished (Failure msg)], fs_ops = [], gen = g\<rparr>
             | None \<Rightarrow>
                (case fold (process_file e input_dir output_dir (length dicom_files))
                        (enumerate 1 dicom_files)
                        (\<lparr>total = length dicom_files, successful = 0, failed = 0,
                          total_tags_removed = 0, errors = []\<rparr>,
                         \<lparr>signals = [], fs_ops = [Mkdir output_dir], gen = g\<rparr>) of
                   (st, w) \<Rightarrow> w\<lparr>signals := signals w @ [Finished (Success st)]\<rparr>)))"

section \<open>Vocabulary of the properties\<close>

text \<open>
  What the date shift makes of a value: the year and \<open>0101\<close> when the stringified value
  has at least 8 characters, the value itself otherwise.
\<close>

definition shifted :: "dvalue \<Rightarrow> dvalue" where
  "shifted v =
     (case py_str v of
        None \<Rightarrow> v
      | Some s \<Rightarrow> if 8 \<le> length s then Text (take 4 s @ ''0101'') else v)"


text \<open>The text with which reading an element raises, if it does.\<close>

fun malformed_text :: "dvalue option \<Rightarrow> string option" where
  "malformed_text (Some (Malformed msg)) = Some msg"
| "malformed_text v = None"

text \<open>
  The text of the failure that a discovered file meets in the loop, if any: a load error
  with the prefix that \<^verbatim>\<open>load_dicom\<close> puts before it, an engine error, which under the
  default rule set is the one of a \<open>SOPInstanceUID\<close> that cannot be read, or an error of
  mirroring the path and writing the file.
\<close>

definition failure_text :: "env \<Rightarrow> path \<Rightarrow> path \<Rightarrow> path \<Rightarrow> string option" where
  "failure_text e input_dir output_dir file_path =
     (case dcmread e file_path of
        Inl msg \<Rightarrow> Some (''Error loading DICOM: '' @ msg)
      | Inr ds \<Rightarrow>
          (case malformed_text (getitem ds (Keyword ''SOPInstanceUID'')) of
             Some msg \<Rightarrow> Some msg
           | None \<Rightarrow>
              (case relative_to file_path input_dir of
                 Inl msg \<Rightarrow> Some msg
               | Inr relative_path \<Rightarrow>
                   (case mkdir_error e (parent (output_dir @ relative_path)) of
                      Some msg \<Rightarrow> Some msg
                    | None \<Rightarrow> save_error e (output_dir @ relative_path)))))"

text \<open>The line that the error list gets for a file that failed.\<close>

definition failure_entry :: "env \<Rightarrow> path \<Rightarrow> path \<Rightarrow> path \<Rightarrow> string option" where
  "failure_entry e input_dir output_dir file_path =
     map_option (\<lambda>msg. file_name file_path @ '': '' @ msg)
       (failure_text e input_dir output_dir file_path)"

section \<open>Dataset operations\<close>


lemma delitem_filter: "delitem ds t = filter (\<lambda>p. fst p \<noteq> t) ds"
  by (auto simp: delitem_def AList.delete_eq intro: filter_cong)

lemma fst_remove_step: "fst (remove_step k s) = filter (\<lambda>p. fst p \<noteq> Keyword k) (fst s)"
proof (cases s)
  case (Pair ds c)
  have "\<not> contains ds (Keyword k) \<Longrightarrow> filter (\<lambda>p. fst p \<noteq> Keyword k) ds = ds"
    by (force simp: contains_def filter_id_conv)
  then show ?thesis by (simp add: Pair delitem_filter)
qed

lemma fst_fold_remove:
  "fst (fold remove_step ks s) = filter (\<lambda>p. fst p \<notin> Keyword ` set ks) (fst s)"
proof (induction ks arbitrary: s)
  case Nil
  then show ?case by simp
next
  case (Cons k ks)
  show ?case
    by (auto simp: Cons.IH fst_remove_step intro!: filter_cong)
qed

lemma snd_fold_remove:
  "snd (fold remove_step ks s) + length (fst (fold remove_step ks s)) \<le> snd s + length (fst s)"
proof (induction ks arbitrary: s)
  case Nil
  then show ?case by simp
next
  case (Cons k ks)
  obtain ds c where s: "s = (ds, c)" by (cases s)
  have "contains ds (Keyword k) \<Longrightarrow> length (delitem ds (Keyword k)) < length ds"
    unfolding delitem_filter contains_def
    by (auto intro!: length_filter_less[of "(Keyword k, _)"] )
  then show ?case
    using Cons.IH[of "remove_step k s"] by (auto simp: s)
qed

lemma keys_set_value: "contains ds t \<Longrightarrow> keys (set_value ds t v) = keys ds"
  by (simp add: contains_def keys_def set_value_def update_keys)

lemma keys_shift_step: "keys (fst (shift_step k s)) = keys (fst s)"
  by (cases s) (auto simp: keys_set_value split: option.splits)

lemma keys_fold_shift: "keys (fst (fold shift_step ks s)) = keys (fst s)"
  by (induction ks arbitrary: s) (auto simp: keys_shift_step)

lemma contains_getitem: "contains ds t = (getitem ds t \<noteq> None)"
  by (simp add: contains_def getitem_def map_of_eq_None_iff)

lemma contains_keys: "contains ds t = (t \<in> set (keys ds))"
  by (simp add: contains_def keys_def)

lemma getitem_set_value: "getitem (set_value ds t v) u = (if u = t then Some v else getitem ds u)"
  by (simp add: getitem_def set_value_def update_conv')

lemma getitem_delitem: "getitem (delitem ds t) u = (if u = t then None else getitem ds u)"
  by (simp add: getitem_def delitem_def delete_conv')

lemma shifted_idem: "shifted (shifted v) = shifted v"
  by (cases v) (auto simp: shifted_def split: option.splits)

lemma getitem_shift_step:
  "getitem (fst (shift_step k s)) t =
     (if t = Keyword k then map_option shifted (getitem (fst s) t) else getitem (fst s) t)"
  by (cases s) (auto simp: getitem_set_value shifted_def contains_getitem split: option.splits)

lemma getitem_fold_shift:
  "getitem (fst (fold shift_step ks s)) t =
     (if t \<in> Keyword ` set ks then map_option shifted (getitem (fst s) t) else getitem (fst s) t)"
proof (induction ks arbitrary: s)
  case Nil
  then show ?case by simp
next
  case (Cons k ks)
  show ?case
    by (cases "getitem (fst s) t") (auto simp: Cons.IH getitem_shift_step shifted_idem)
qed

lemma snd_shift_step:
  "snd (shift_step k s) \<le> snd s + (if contains (fst s) (Keyword k) then 1 else 0)"
  by (cases s) (auto split: option.splits)

lemma contains_shift_step: "contains (fst (shift_step k s)) t = contains (fst s) t"
  by (simp add: contains_keys keys_shift_step)

lemma snd_fold_shift:
  "snd (fold shift_step ks s) \<le> snd s + length (filter (\<lambda>k. contains (fst s) (Keyword k)) ks)"
proof (induction ks arbitrary: s)
  case Nil
  then show ?case by simp
next
  case (Cons k ks)
  have "snd (fold shift_step ks (shift_step k s))
      \<le> snd (shift_step k s) + length (filter (\<lambda>k. contains (fst s) (Keyword k)) ks)"
    using Cons.IH[of "shift_step k s"] by (simp add: contains_shift_step)
  with snd_shift_step[of k s] show ?case by auto
qed

lemma fold_purge:
  "fold purge_step ts s = (filter (\<lambda>p. fst p \<notin> set ts) (fst s), snd s + length ts)"
proof (induction ts arbitrary: s)
  case Nil
  then show ?case by simp
next
  case (Cons t ts)
  obtain ds c where s: "s = (ds, c)" by (cases s)
  show ?case
    by (auto simp: s Cons.IH delitem_filter intro!: filter_cong)
qed

lemma purge_private_eq:
  "purge_private s =
     (filter (\<lambda>p. \<not> is_private (fst p)) (fst s), snd s + length (filter is_private (keys (fst s))))"
  by (auto simp: purge_private_def Let_def fold_purge keys_def intro!: filter_cong)

lemma getitem_filter: "getitem (filter (\<lambda>p. P (fst p)) ds) t = (if P t then getitem ds t else None)"
  unfolding getitem_def by (induction ds) auto

lemma length_keys: "length (keys ds) = length ds"
  by (simp add: keys_def)

lemma getitem_filter_public:
  "getitem (filter (\<lambda>p. \<not> is_private (fst p)) ds) t = (if is_private t then None else getitem ds t)"
  using getitem_filter[of "\<lambda>t. \<not> is_private t" ds t] by simp

lemma getitem_filter_notin:
  "getitem (filter (\<lambda>p. fst p \<notin> S) ds) t = (if t \<in> S then None else getitem ds t)"
  using getitem_filter[of "\<lambda>t. t \<notin> S" ds t] by simp




lemma filter_disjoint_length:
  "(\<And>x. \<not> (P x \<and> Q x)) \<Longrightarrow> length (filter P xs) + length (filter Q xs) \<le> length xs"
  by (induction xs) auto

lemma contains_filter_length: "contains ds t \<Longrightarrow> 1 \<le> length (filter (\<lambda>x. x = t) (keys ds))"
  by (auto simp: contains_keys filter_empty_conv Suc_le_eq)

lemma try_fold_preserves:
  assumes "\<And>x s. x \<in> set xs \<Longrightarrow> Q (state_of (f x s)) = Q s"
  shows "Q (state_of (try_fold f xs s)) = Q s"
  using assms
proof (induction xs arbitrary: s)
  case Nil
  then show ?case by simp
next
  case (Cons x xs)
  show ?case
  proof (cases "f x s")
    case (Inl e)
    with Cons.prems[of x s] show ?thesis by simp
  next
    case (Inr s')
    with Cons.prems[of x s] Cons.IH[of s'] Cons.prems show ?thesis by simp
  qed
qed

lemma keys_replace_step: "keys (fst (state_of (replace_step kv s))) = keys (fst s)"
  by (cases s; cases kv) (auto simp: keys_set_value split: option.splits sum.splits)

lemma keys_replace_tags: "keys (fst (state_of (replace_tags rs s))) = keys (fst s)"
  unfolding replace_tags_def
  by (rule try_fold_preserves[where Q = "\<lambda>s. keys (fst s)"]) (rule keys_replace_step)

lemma getitem_replace_step:
  "t \<noteq> Keyword (fst kv) \<Longrightarrow> getitem (fst (state_of (replace_step kv s))) t = getitem (fst s) t"
  by (cases s; cases kv) (auto simp: getitem_set_value split: option.splits sum.splits)

lemma getitem_replace_tags:
  assumes "t \<notin> Keyword ` fst ` set (replace rs)"
  shows "getitem (fst (state_of (replace_tags rs s))) t = getitem (fst s) t"
  unfolding replace_tags_def
proof (rule try_fold_preserves[where Q = "\<lambda>s. getitem (fst s) t"])
  fix kv s assume "kv \<in> set (replace rs)"
  with assms have "t \<noteq> Keyword (fst kv)" by auto
  then show "getitem (fst (state_of (replace_step kv s))) t = getitem (fst s) t"
    by (rule getitem_replace_step)
qed

lemma try_fold_replace_absent:
  "\<forall>k \<in> set (map fst kvs). \<not> contains (fst s) (Keyword k) \<Longrightarrow>
   try_fold replace_step kvs s = Inr s"
proof (induction kvs arbitrary: s)
  case Nil
  then show ?case by simp
next
  case (Cons kv kvs)
  obtain ds c where s: "s = (ds, c)" by (cases s)
  obtain k v where kv: "kv = (k, v)" by (cases kv)
  from Cons.prems have "replace_step kv s = Inr s" by (simp add: s kv)
  with Cons show ?case by simp
qed

lemma regenerate_absent: "\<not> contains (fst s) (Keyword k) \<Longrightarrow> regenerate k s = Inr s"
  by (cases s) simp

lemma regenerate_malformed:
  "malformed_text (getitem ds (Keyword k)) = Some msg \<Longrightarrow>
   regenerate k (ds, g) = Inl (msg, (ds, Suc g))"
  by (cases "getitem ds (Keyword k)" rule: malformed_text.cases)
     (auto simp: contains_getitem generate_uid_def)

lemma regenerate_readable:
  "contains ds (Keyword k) \<Longrightarrow> malformed_text (getitem ds (Keyword k)) = None \<Longrightarrow>
   regenerate k (ds, g) = Inr (set_value ds (Keyword k) (fst (generate_uid g)), Suc g)"
  by (cases "getitem ds (Keyword k)" rule: malformed_text.cases)
     (auto simp: contains_getitem generate_uid_def)

lemma keys_regenerate: "keys (fst (state_of (regenerate k s))) = keys (fst s)"
  by (cases s) (auto simp: keys_set_value split: prod.splits option.splits sum.splits)

lemma getitem_regenerate_other:
  "t \<noteq> Keyword k \<Longrightarrow> getitem (fst (state_of (regenerate k s))) t = getitem (fst s) t"
  by (cases s) (auto simp: getitem_set_value split: prod.splits option.splits sum.splits)

lemma keys_regenerate_uids: "keys (fst (state_of (regenerate_uids s))) = keys (fst s)"
  unfolding regenerate_uids_def
  by (rule try_fold_preserves[where Q = "\<lambda>s. keys (fst s)"]) (rule keys_regenerate)

lemma getitem_regenerate_uids:
  assumes "t \<notin> Keyword ` {''SOPInstanceUID'', ''StudyInstanceUID'', ''SeriesInstanceUID''}"
  shows "getitem (fst (state_of (regenerate_uids s))) t = getitem (fst s) t"
  unfolding regenerate_uids_def
proof (rule try_fold_preserves[where Q = "\<lambda>s. getitem (fst s) t"])
  fix k s assume "k \<in> set [''SOPInstanceUID'', ''StudyInstanceUID'', ''SeriesInstanceUID'']"
  with assms have "t \<noteq> Keyword k" by auto
  then show "getitem (fst (state_of (regenerate k s))) t = getitem (fst s) t"
    by (rule getitem_regenerate_other)
qed

section \<open>The passes in sequence\<close>

declare regenerate.simps [simp del]

text \<open>What the engine returns once the replace pass has gone through.\<close>

lemma anonymize_dicom_replaced:
  assumes "replace_tags rs (remove_tags rs (ds, 0)) = Inr s"
  shows "anonymize_dicom rs ds g =
     (case regenerate_uids (fst (purge_private (shift_dates rs s)), g) of
        Inl (msg, (ds', g')) \<Rightarrow> ((False, Inl msg), ds', g')
      | Inr (ds', g') \<Rightarrow> ((True, Inr (snd (purge_private (shift_dates rs s)))), ds', g'))"
  using assms
  by (simp add: anonymize_dicom_def anonymize_dataset_def split: prod.splits sum.splits)

lemma anonymize_dicom_replaced_record:
  assumes "replace_tags rs (remove_tags rs (ds, 0)) = Inr s"
  shows "fst (snd (anonymize_dicom rs ds g)) =
         fst (state_of (regenerate_uids (fst (purge_private (shift_dates rs s)), g)))"
  unfolding anonymize_dicom_replaced[OF assms]
  by (cases "regenerate_uids (fst (purge_private (shift_dates rs s)), g)") auto

lemma anonymize_dicom_success:
  assumes "anonymize_dicom rs ds g = ((True, Inr c), ds', g')"
  shows "\<exists>s. replace_tags rs (remove_tags rs (ds, 0)) = Inr s
           \<and> c = snd (purge_private (shift_dates rs s))
           \<and> ds' = fst (state_of (regenerate_uids (fst (purge_private (shift_dates rs s)), g)))"
proof (cases "replace_tags rs (remove_tags rs (ds, 0))")
  case (Inl e)
  with assms show ?thesis
    by (simp add: anonymize_dicom_def anonymize_dataset_def split: prod.splits)
next
  case (Inr s)
  from assms show ?thesis
    unfolding anonymize_dicom_replaced[OF Inr]
    by (cases "regenerate_uids (fst (purge_private (shift_dates rs s)), g)")
       (auto simp: Inr)
qed

lemma replace_keys_removed:
  "set (map fst (replace ANONYMIZATION_RULES)) \<subseteq> set (remove ANONYMIZATION_RULES)"
  by (simp add: ANONYMIZATION_RULES_def)

lemma removed_absent:
  "k \<in> set (remove rs) \<Longrightarrow> \<not> contains (fst (remove_tags rs s)) (Keyword k)"
  by (simp add: remove_tags_def fst_fold_remove contains_getitem getitem_filter_notin)

lemma replace_after_remove_default:
  "replace_tags ANONYMIZATION_RULES (remove_tags ANONYMIZATION_RULES s) =
   Inr (remove_tags ANONYMIZATION_RULES s)"
  unfolding replace_tags_def
proof (rule try_fold_replace_absent, rule ballI)
  fix k assume "k \<in> set (map fst (replace ANONYMIZATION_RULES))"
  then have "k \<in> set (remove ANONYMIZATION_RULES)"
    using replace_keys_removed by blast
  then show "\<not> contains (fst (remove_tags ANONYMIZATION_RULES s)) (Keyword k)"
    by (rule removed_absent)
qed

text \<open>The final dataset whenever the replace pass went through.\<close>

lemma contains_after:
  assumes "replace_tags rs (remove_tags rs (ds, 0)) = Inr s"
  shows "contains (fst (snd (anonymize_dicom rs ds g))) t =
     (contains ds t \<and> t \<notin> Keyword ` set (remove rs) \<and> \<not> is_private t)"
proof -
  let ?s1 = "remove_tags rs (ds, 0)"
  have s: "s = state_of (replace_tags rs ?s1)"
    by (simp add: assms)
  have k3: "keys (fst (shift_dates rs s)) = keys (fst ?s1)"
    by (simp add: shift_dates_def keys_fold_shift s keys_replace_tags)
  have "contains (fst (snd (anonymize_dicom rs ds g))) t
      = contains (fst (purge_private (shift_dates rs s))) t"
    by (simp add: anonymize_dicom_replaced_record[OF assms] contains_keys keys_regenerate_uids)
  also have "\<dots> = (\<not> is_private t \<and> contains (fst (shift_dates rs s)) t)"
    by (simp add: purge_private_eq contains_getitem getitem_filter_public)
  also have "contains (fst (shift_dates rs s)) t = contains (fst ?s1) t"
    by (simp add: contains_keys k3)
  also have "\<dots> = (t \<notin> Keyword ` set (remove rs) \<and> contains ds t)"
    by (simp add: remove_tags_def fst_fold_remove contains_getitem getitem_filter_notin)
  finally show ?thesis by auto
qed

lemma getitem_after:
  assumes "replace_tags rs (remove_tags rs (ds, 0)) = Inr s"
    and "t \<notin> Keyword ` set (remove rs)" and "\<not> is_private t"
    and "t \<notin> Keyword ` fst ` set (replace rs)"
    and "t \<notin> Keyword ` {''SOPInstanceUID'', ''StudyInstanceUID'', ''SeriesInstanceUID''}"
  shows "getitem (fst (snd (anonymize_dicom rs ds g))) t =
     (if t \<in> Keyword ` set (date_shift rs) then map_option shifted (getitem ds t)
      else getitem ds t)"
proof -
  let ?s1 = "remove_tags rs (ds, 0)"
  have s: "s = state_of (replace_tags rs ?s1)"
    by (simp add: assms(1))
  have "getitem (fst s) t = getitem (fst ?s1) t"
    unfolding s using assms(4) by (rule getitem_replace_tags)
  also have "\<dots> = getitem ds t"
    using assms(2) by (simp add: remove_tags_def fst_fold_remove getitem_filter_notin)
  finally have g2: "getitem (fst s) t = getitem ds t" .
  have "getitem (fst (snd (anonymize_dicom rs ds g))) t
      = getitem (fst (purge_private (shift_dates rs s))) t"
    by (simp add: anonymize_dicom_replaced_record[OF assms(1)] getitem_regenerate_uids[OF assms(5)])
  also have "\<dots> = getitem (fst (shift_dates rs s)) t"
    using assms(3) by (simp add: purge_private_eq getitem_filter_public)
  also have "\<dots> = (if t \<in> Keyword ` set (date_shift rs) then map_option shifted (getitem (fst s) t)
      else getitem (fst s) t)"
    by (simp add: shift_dates_def getitem_fold_shift)
  finally show ?thesis by (simp add: g2)
qed

text \<open>Under the default rule set only the \<open>SOPInstanceUID\<close> decides the outcome.\<close>

lemma default_mid_sop:
  "getitem (fst (purge_private (shift_dates ANONYMIZATION_RULES
       (remove_tags ANONYMIZATION_RULES (ds, 0))))) (Keyword ''SOPInstanceUID'')
   = getitem ds (Keyword ''SOPInstanceUID'')"
  by (simp add: purge_private_eq getitem_filter_public shift_dates_def getitem_fold_shift
      remove_tags_def fst_fold_remove getitem_filter_notin)
     (simp add: ANONYMIZATION_RULES_def image_iff)

lemma default_mid_absent:
  assumes "k \<in> set (remove ANONYMIZATION_RULES)"
  shows "\<not> contains (fst (purge_private (shift_dates ANONYMIZATION_RULES
       (remove_tags ANONYMIZATION_RULES (ds, 0))))) (Keyword k)"
proof -
  have "Keyword k \<in> Keyword ` set (remove ANONYMIZATION_RULES)"
    using assms by blast
  then show ?thesis
    by (simp add: contains_getitem purge_private_eq getitem_filter_public shift_dates_def
      getitem_fold_shift remove_tags_def fst_fold_remove getitem_filter_notin)
qed

lemma regenerate_uids_default:
  assumes "\<not> contains ds3 (Keyword ''StudyInstanceUID'')"
    and "\<not> contains ds3 (Keyword ''SeriesInstanceUID'')"
  shows "regenerate_uids (ds3, g) = regenerate ''SOPInstanceUID'' (ds3, g)"
proof (cases "regenerate ''SOPInstanceUID'' (ds3, g)")
  case (Inl e)
  then show ?thesis by (simp add: regenerate_uids_def)
next
  case (Inr s')
  have k: "keys (fst s') = keys ds3"
    using keys_regenerate[of "''SOPInstanceUID''" "(ds3, g)"] by (simp add: Inr)
  have "regenerate ''StudyInstanceUID'' s' = Inr s'"
    using assms(1) by (intro regenerate_absent) (simp add: contains_keys k)
  moreover have "regenerate ''SeriesInstanceUID'' s' = Inr s'"
    using assms(2) by (intro regenerate_absent) (simp add: contains_keys k)
  ultimately show ?thesis by (simp add: regenerate_uids_def Inr)
qed

lemma default_failure:
  assumes "malformed_text (getitem ds (Keyword ''SOPInstanceUID'')) = Some msg"
  shows "anonymize_dicom ANONYMIZATION_RULES ds g =
     ((False, Inl msg),
      fst (purge_private (shift_dates ANONYMIZATION_RULES (remove_tags ANONYMIZATION_RULES (ds, 0)))),
      Suc g)"
proof -
  let ?R = ANONYMIZATION_RULES
  let ?ds3 = "fst (purge_private (shift_dates ?R (remove_tags ?R (ds, 0))))"
  have r: "regenerate_uids (?ds3, g) = regenerate ''SOPInstanceUID'' (?ds3, g)"
    by (rule regenerate_uids_default; rule default_mid_absent; simp add: ANONYMIZATION_RULES_def)
  have "regenerate ''SOPInstanceUID'' (?ds3, g) = Inl (msg, (?ds3, Suc g))"
    by (rule regenerate_malformed) (simp add: default_mid_sop assms)
  with r show ?thesis
    by (simp add: anonymize_dicom_replaced[OF replace_after_remove_default])
qed

lemma default_success:
  assumes "malformed_text (getitem ds (Keyword ''SOPInstanceUID'')) = None"
  shows "\<exists>ds' g'. anonymize_dicom ANONYMIZATION_RULES ds g =
     ((True, Inr (snd (purge_private (shift_dates ANONYMIZATION_RULES
         (remove_tags ANONYMIZATION_RULES (ds, 0)))))), ds', g')"
proof -
  let ?R = ANONYMIZATION_RULES
  let ?ds3 = "fst (purge_private (shift_dates ?R (remove_tags ?R (ds, 0))))"
  have r: "regenerate_uids (?ds3, g) = regenerate ''SOPInstanceUID'' (?ds3, g)"
    by (rule regenerate_uids_default; rule default_mid_absent; simp add: ANONYMIZATION_RULES_def)
  have "\<exists>s'. regenerate ''SOPInstanceUID'' (?ds3, g) = Inr s'"
  proof (cases "contains ?ds3 (Keyword ''SOPInstanceUID'')")
    case True
    then show ?thesis
      using regenerate_readable[of ?ds3 "''SOPInstanceUID''" g] assms
      by (simp add: default_mid_sop)
  next
    case False
    then show ?thesis
      using regenerate_absent[of "(?ds3, g)" "''SOPInstanceUID''"] by simp
  qed
  then obtain ds' g' where "regenerate ''SOPInstanceUID'' (?ds3, g) = Inr (ds', g')"
    by (cases) auto
  with r show ?thesis
    by (simp add: anonymize_dicom_replaced[OF replace_after_remove_default])
qed

section \<open>The count\<close>

lemma default_shift_count:
  "length (filter (\<lambda>k. contains (fst (remove_tags ANONYMIZATION_RULES s)) (Keyword k))
     (date_shift ANONYMIZATION_RULES))
   \<le> length (filter (\<lambda>x. x = Keyword ''AcquisitionDate'')
        (keys (fst (remove_tags ANONYMIZATION_RULES s))))"
proof -
  let ?ds = "fst (remove_tags ANONYMIZATION_RULES s)"
  have "\<not> contains ?ds (Keyword ''StudyDate'')" "\<not> contains ?ds (Keyword ''SeriesDate'')"
    "\<not> contains ?ds (Keyword ''PatientBirthDate'')" "\<not> contains ?ds (Keyword ''ContentDate'')"
    by (rule removed_absent, simp add: ANONYMIZATION_RULES_def)+
  then have "length (filter (\<lambda>k. contains ?ds (Keyword k)) (date_shift ANONYMIZATION_RULES))
      = (if contains ?ds (Keyword ''AcquisitionDate'') then 1 else 0)"
    by (simp add: ANONYMIZATION_RULES_def)
  with contains_filter_length[of ?ds "Keyword ''AcquisitionDate''"] show ?thesis by auto
qed

lemma default_count_bound:
  "snd (purge_private (shift_dates ANONYMIZATION_RULES (remove_tags ANONYMIZATION_RULES (ds, 0))))
   \<le> length ds"
proof -
  let ?R = ANONYMIZATION_RULES
  let ?s1 = "remove_tags ?R (ds, 0)"
  let ?s3 = "shift_dates ?R ?s1"
  have c1: "snd ?s1 + length (fst ?s1) \<le> length ds"
    using snd_fold_remove[of "remove ?R" "(ds, 0)"] by (simp add: remove_tags_def)
  have c3: "snd ?s3 \<le> snd ?s1 + length (filter (\<lambda>x. x = Keyword ''AcquisitionDate'') (keys (fst ?s1)))"
    using snd_fold_shift[of "date_shift ?R" ?s1] default_shift_count[of "(ds, 0)"]
    by (simp add: shift_dates_def)
  have k3: "keys (fst ?s3) = keys (fst ?s1)"
    by (simp add: shift_dates_def keys_fold_shift)
  have "length (filter (\<lambda>x. x = Keyword ''AcquisitionDate'') (keys (fst ?s1)))
        + length (filter is_private (keys (fst ?s1))) \<le> length (keys (fst ?s1))"
    by (rule filter_disjoint_length) auto
  then have "snd (purge_private ?s3) \<le> snd ?s1 + length (fst ?s1)"
    using c3 by (simp add: purge_private_eq k3 length_keys)
  with c1 show ?thesis by simp
qed






lemmas engine_eval =
  anonymize_dicom_def anonymize_dataset_def remove_tags_def replace_tags_def shift_dates_def
  purge_private_def regenerate_uids_def regenerate.simps ANONYMIZATION_RULES_def contains_def
  getitem_def delitem_def set_value_def keys_def generate_uid_def AList.delete_eq Let_def

section \<open>Discovered paths\<close>

text \<open>
  Every path that discovery returns lies under the directory it was started on, so
  \<^verbatim>\<open>relative_to\<close> does not raise on it.
\<close>

lemma rglob_below:
  "q \<in> set (rglob p n) \<Longrightarrow> take (length p) q = p"
  "q \<in> set (rglob_entries p entries) \<Longrightarrow> take (length p) q = p"
proof (induction p n and p entries arbitrary: q and q rule: rglob_rglob_entries.induct)
  case (5 p n c entries)
  from "5.prems" consider "q = p @ [n]" | "q \<in> set (rglob (p @ [n]) c)"
    | "q \<in> set (rglob_entries p entries)"
    by (auto split: if_splits)
  then show ?case
  proof cases
    case 1
    then show ?thesis by simp
  next
    case 2
    from "5.IH"(1)[OF 2] have "take (length p) (take (length (p @ [n])) q) = take (length p) (p @ [n])"
      by simp
    then show ?thesis by (simp add: min_def)
  next
    case 3
    then show ?thesis by (rule "5.IH"(2))
  qed
qed simp_all

lemma discovered_below:
  "find_dicom_files fs input_dir = Inr dicom_files \<Longrightarrow> file_path \<in> set dicom_files \<Longrightarrow>
   relative_to file_path input_dir = Inr (drop (length input_dir) file_path)"
  by (auto simp: find_dicom_files_def relative_to_def rglob_below Let_def
      split: option.splits sum.splits if_splits)

section \<open>The loop of the batch worker\<close>

declare process_file.simps [simp del]

lemma process_file_failure:
  assumes "failure_text e input_dir output_dir file_path = Some msg"
  shows "fst (process_file e input_dir output_dir n (idx, file_path) (st, w))
         = record_failure file_path msg st"
proof (cases "dcmread e file_path")
  case (Inl m)
  with assms show ?thesis by (simp add: failure_text_def load_dicom_def process_file.simps)
next
  case (Inr ds)
  show ?thesis
  proof (cases "malformed_text (getitem ds (Keyword ''SOPInstanceUID''))")
    case (Some m)
    from default_failure[OF Some, of "gen w"] Inr Some assms show ?thesis
      by (simp add: failure_text_def load_dicom_def process_file.simps)
  next
    case None
    from default_success[OF None, of "gen w"] obtain c ds' g' where
      "anonymize_dicom ANONYMIZATION_RULES ds (gen w) = ((True, Inr c), ds', g')" by blast
    with assms Inr None show ?thesis
      by (auto simp: failure_text_def load_dicom_def Let_def process_file.simps
          split: sum.splits option.splits)
  qed
qed

lemma process_file_success:
  assumes "failure_text e input_dir output_dir file_path = None"
  shows "\<exists>d. fst (process_file e input_dir output_dir n (idx, file_path) (st, w))
         = st\<lparr>successful := successful st + 1, total_tags_removed := d\<rparr>"
proof (cases "dcmread e file_path")
  case (Inl m)
  with assms show ?thesis by (simp add: failure_text_def)
next
  case (Inr ds)
  show ?thesis
  proof (cases "malformed_text (getitem ds (Keyword ''SOPInstanceUID''))")
    case (Some m)
    with Inr assms show ?thesis by (simp add: failure_text_def)
  next
    case None
    from default_success[OF None, of "gen w"] obtain c ds' g' where
      "anonymize_dicom ANONYMIZATION_RULES ds (gen w) = ((True, Inr c), ds', g')" by blast
    with assms Inr None show ?thesis
      by (auto simp: failure_text_def load_dicom_def Let_def process_file.simps
          split: sum.splits option.splits)
  qed
qed

lemma process_file_no_finished:
  "Finished r \<in> set (signals (snd (process_file e input_dir output_dir n ip s)))
   \<Longrightarrow> Finished r \<in> set (signals (snd s))"
  by (cases ip; cases s)
     (auto simp: emit_progress_def Let_def process_file.simps
        split: sum.splits option.splits prod.splits if_splits)

lemma fold_process_no_finished:
  "Finished r \<in> set (signals (snd (fold (process_file e input_dir output_dir n) ips s)))
   \<Longrightarrow> Finished r \<in> set (signals (snd s))"
proof (induction ips arbitrary: s)
  case Nil
  then show ?case by simp
next
  case (Cons ip ips)
  from Cons.prems
  have "Finished r \<in> set (signals (snd (process_file e input_dir output_dir n ip s)))"
    using Cons.IH[of "process_file e input_dir output_dir n ip s"] by simp
  then show ?case by (rule process_file_no_finished)
qed

lemma process_file_stats:
  "total (fst (process_file e i out n (idx, p) (st, w))) = total st
   \<and> errors (fst (process_file e i out n (idx, p) (st, w)))
       = errors st @ (case failure_entry e i out p of None \<Rightarrow> [] | Some x \<Rightarrow> [x])
   \<and> failed (fst (process_file e i out n (idx, p) (st, w)))
       = failed st + (case failure_entry e i out p of None \<Rightarrow> 0 | Some x \<Rightarrow> 1)
   \<and> successful (fst (process_file e i out n (idx, p) (st, w)))
       = successful st + (case failure_entry e i out p of None \<Rightarrow> 1 | Some x \<Rightarrow> 0)"
proof (cases "failure_text e i out p")
  case None
  from process_file_success[OF None, of n idx st w]
  obtain d where "fst (process_file e i out n (idx, p) (st, w))
         = st\<lparr>successful := successful st + 1, total_tags_removed := d\<rparr>" by blast
  then show ?thesis by (simp add: failure_entry_def None)
next
  case (Some msg)
  show ?thesis
    by (simp add: process_file_failure[OF Some] failure_entry_def Some record_failure_def)
qed

lemma fold_process_stats:
  "total (fst (fold (process_file e i out n) ips s)) = total (fst s)
   \<and> errors (fst (fold (process_file e i out n) ips s))
       = errors (fst s) @ List.map_filter (failure_entry e i out) (map snd ips)
   \<and> failed (fst (fold (process_file e i out n) ips s))
       = failed (fst s) + length (List.map_filter (failure_entry e i out) (map snd ips))
   \<and> successful (fst (fold (process_file e i out n) ips s)) + failed (fst (fold (process_file e i out n) ips s))
       = successful (fst s) + failed (fst s) + length ips"
proof (induction ips arbitrary: s)
  case Nil
  then show ?case by (simp add: List.map_filter_simps)
next
  case (Cons ip ips)
  obtain idx p where ip: "ip = (idx, p)" by (cases ip)
  obtain st w where s: "s = (st, w)" by (cases s)
  note step = process_file_stats[of e i out n idx p st w]
  show ?case
    using Cons.IH[of "process_file e i out n ip s"] step
    by (cases "failure_entry e i out p") (simp_all add: ip s List.map_filter_simps)
qed

lemma map_snd_enumerate: "map snd (enumerate k xs) = xs"
  by (simp add: enumerate_eq_zip)

lemma run_success:
  assumes "find_dicom_files (tree e) i = Inr dicom_files" and "dicom_files \<noteq> []"
    and "mkdir_error e out = None"
  shows "\<exists>st w. fold (process_file e i out (length dicom_files))
                 (enumerate 1 dicom_files)
                 (\<lparr>total = length dicom_files, successful = 0, failed = 0,
                   total_tags_removed = 0, errors = []\<rparr>,
                  \<lparr>signals = [], fs_ops = [Mkdir out], gen = g\<rparr>) = (st, w)
          \<and> run e i out g = w\<lparr>signals := signals w @ [Finished (Success st)]\<rparr>"
  using assms by (auto simp: run_def Let_def split: prod.splits)

lemma run_stats:
  assumes "find_dicom_files (tree e) i = Inr dicom_files" and "dicom_files \<noteq> []"
    and "mkdir_error e out = None"
  shows "\<exists>st. last (signals (run e i out g)) = Finished (Success st)
     \<and> (\<forall>r. Finished r \<in> set (signals (run e i out g)) \<longrightarrow> r = Success st)
     \<and> total st = length dicom_files
     \<and> errors st = List.map_filter (failure_entry e i out) dicom_files
     \<and> failed st = length (errors st)
     \<and> successful st + failed st = total st"
proof -
  let ?files = "dicom_files"
  let ?s0 = "(\<lparr>total = length ?files, successful = 0, failed = 0,
                   total_tags_removed = 0, errors = []\<rparr>,
                  \<lparr>signals = [], fs_ops = [Mkdir out], gen = g\<rparr>)"
  from run_success[OF assms, of g] obtain st w where
    f: "fold (process_file e i out (length ?files)) (enumerate 1 ?files) ?s0 = (st, w)"
    and r: "run e i out g = w\<lparr>signals := signals w @ [Finished (Success st)]\<rparr>"
    by blast
  have nf: "Finished r \<notin> set (signals w)" for r
  proof
    assume "Finished r \<in> set (signals w)"
    then have "Finished r \<in> set (signals (snd (fold (process_file e i out (length ?files))
        (enumerate 1 ?files) ?s0)))"
      by (simp only: f snd_conv)
    from fold_process_no_finished[OF this] show False by simp
  qed
  from fold_process_stats[of e i out "length ?files" "enumerate 1 ?files" ?s0, unfolded f]
  have "total st = length ?files"
    "errors st = List.map_filter (failure_entry e i out) ?files"
    "failed st = length (List.map_filter (failure_entry e i out) ?files)"
    "successful st + failed st = length ?files"
    by (simp_all add: map_snd_enumerate)
  with nf show ?thesis
    by (auto simp: r)
qed

lemmas run_eval = run_def find_dicom_files_def path_exists_def matches_dcm_def path_str_def
  Let_def enumerate_eq_zip process_file.simps load_dicom_def record_failure_def file_name_def
  emit_progress_def relative_to_def parent_def

lemma run_empty:
  "find_dicom_files (tree e) input_dir = Inr [] \<Longrightarrow>
   run e input_dir output_dir g =
     \<lparr>signals = [Finished (Failure ''No DICOM files found'')], fs_ops = [], gen = g\<rparr>"
  by (simp add: run_def)

lemma run_discovery_raises:
  "find_dicom_files (tree e) input_dir = Inl msg \<Longrightarrow>
   run e input_dir output_dir g = \<lparr>signals = [Finished (Failure msg)], fs_ops = [], gen = g\<rparr>"
  by (simp add: run_def)

lemma find_missing: "path_exists fs p = Inr False \<Longrightarrow> find_dicom_files fs p = Inr []"
  by (simp add: find_dicom_files_def)

lemma find_raises: "path_exists fs p = Inl msg \<Longrightarrow> find_dicom_files fs p = Inl msg"
  by (simp add: find_dicom_files_def)

lemma find_empty_dir: "stat fs p = Inr (Some (Dir [])) \<Longrightarrow> find_dicom_files fs p = Inr []"
  by (simp add: find_dicom_files_def path_exists_def)

lemma engine_failure_step:
  assumes "dcmread e file_path = Inr ds"
    and "malformed_text (getitem ds (Keyword ''SOPInstanceUID'')) = Some msg"
  shows "signals (snd (process_file e input_dir output_dir n (idx, file_path) (st, w)))
     = signals w"
  using assms default_failure[OF assms(2), of "gen w"]
  by (simp add: process_file.simps load_dicom_def)

lemma load_failure_step:
  assumes "dcmread e file_path = Inl msg"
  shows "signals (snd (process_file e input_dir output_dir n (idx, file_path) (st, w)))
     = signals w @ [Progress (progress_percent idx n),
         Status (''Processing '' @ str_nat idx @ ''/'' @ str_nat n @ '': '' @ file_name file_path)]"
  using assms by (simp add: process_file.simps load_dicom_def emit_progress_def)

lemma progress_percent_29_of_100: "progress_percent 29 100 = 28"
  by code_simp

section \<open>The engine under the default rule set\<close>

text \<open>
  Claim C1, as amended. Under the default rule set the dataset that the engine leaves
  holds no identifier of the remove list and no private identifier; it holds no identifier
  of the replace mapping either, because each of them is in the remove list and removal
  runs first; and an identifier outside the remove, private, replace and date-shift
  categories that is not one of the three regenerated UID tags keeps its value. This holds
  whether the engine returns a count or an error.
\<close>

theorem default_rules_outcome:
  assumes "anonymize_dicom ANONYMIZATION_RULES ds g = (res, ds', g')"
  shows "(k \<in> set (remove ANONYMIZATION_RULES) \<longrightarrow> \<not> contains ds' (Keyword k))
    \<and> (is_private t \<longrightarrow> \<not> contains ds' t)
    \<and> (k' \<in> fst ` set (replace ANONYMIZATION_RULES) \<longrightarrow> \<not> contains ds' (Keyword k'))
    \<and> (u \<notin> Keyword ` set (remove ANONYMIZATION_RULES) \<and> \<not> is_private u
        \<and> u \<notin> Keyword ` fst ` set (replace ANONYMIZATION_RULES)
        \<and> u \<notin> Keyword ` set (date_shift ANONYMIZATION_RULES)
        \<and> u \<notin> Keyword ` {''SOPInstanceUID'', ''StudyInstanceUID'', ''SeriesInstanceUID''}
       \<longrightarrow> getitem ds' u = getitem ds u)"
proof -
  note r = replace_after_remove_default[of "(ds, 0)"]
  have ds': "ds' = fst (snd (anonymize_dicom ANONYMIZATION_RULES ds g))"
    using assms by simp
  have "k' \<in> fst ` set (replace ANONYMIZATION_RULES) \<Longrightarrow> k' \<in> set (remove ANONYMIZATION_RULES)"
    using replace_keys_removed by auto
  then show ?thesis
    unfolding ds' by (auto simp: contains_after[OF r] getitem_after[OF r])
qed

theorem default_rules_outcome_witness:
  "anonymize_dicom ANONYMIZATION_RULES
     [(Keyword ''PatientName'', Text ''Doe''), (Private 9, Text ''x''),
      (Keyword ''Modality'', Text ''CT'')] 0
     = ((True, Inr 2), [(Keyword ''Modality'', Text ''CT'')], 0)
   \<and> ''PatientName'' \<in> set (remove ANONYMIZATION_RULES)
   \<and> \<not> contains [(Keyword ''Modality'', Text ''CT'')] (Keyword ''PatientName'')
   \<and> is_private (Private 9)
   \<and> \<not> contains [(Keyword ''Modality'', Text ''CT'')] (Private 9)
   \<and> ''PatientName'' \<in> fst ` set (replace ANONYMIZATION_RULES)
   \<and> getitem [(Keyword ''Modality'', Text ''CT'')] (Keyword ''Modality'') = Some (Text ''CT'')"
proof -
  have e: "anonymize_dicom ANONYMIZATION_RULES
     [(Keyword ''PatientName'', Text ''Doe''), (Private 9, Text ''x''),
      (Keyword ''Modality'', Text ''CT'')] 0
     = ((True, Inr 2), [(Keyword ''Modality'', Text ''CT'')], 0)"
    by (simp add: engine_eval)
  show ?thesis
    using e default_rules_outcome[OF e, of "''PatientName''" "Private 9" "''PatientName''"
        "Keyword ''Modality''"]
    by (simp add: ANONYMIZATION_RULES_def getitem_def)
qed

text \<open>
  The claim as written asks for the replace identifiers to be present with their literal:
  a record with a patient name comes back without one.
\<close>

theorem replaced_name_absent:
  "anonymize_dicom ANONYMIZATION_RULES [(Keyword ''PatientName'', Text ''Doe'')] 0
     = ((True, Inr 1), [], 0)
   \<and> getitem (fst (snd (anonymize_dicom ANONYMIZATION_RULES
         [(Keyword ''PatientName'', Text ''Doe'')] 0)))
       (Keyword ''PatientName'') \<noteq> Some (Text ''ANONYMIZED'')"
  by (simp add: engine_eval)

text \<open>
  Claim C2, as amended. The remove list and the replace mapping of the default rule set are
  not disjoint: every key of the replace mapping is in the remove list, and the replace
  pass after the remove pass changes nothing.
\<close>

theorem replace_shadowed_by_remove:
  "set (map fst (replace ANONYMIZATION_RULES)) \<subseteq> set (remove ANONYMIZATION_RULES)
   \<and> replace_tags ANONYMIZATION_RULES (remove_tags ANONYMIZATION_RULES (ds, c))
       = Inr (remove_tags ANONYMIZATION_RULES (ds, c))"
  using replace_keys_removed replace_after_remove_default by simp

theorem categories_overlap:
  "set (remove ANONYMIZATION_RULES) \<inter> set (map fst (replace ANONYMIZATION_RULES)) \<noteq> {}"
  by (simp add: ANONYMIZATION_RULES_def)

text \<open>
  Claim C3, as amended. For a record with \<open>StudyDate\<close> = \<open>20210615\<close>: under the default rule
  set, whose remove list holds \<open>StudyDate\<close>, the result has no \<open>StudyDate\<close>; under a rule set
  that date-shifts \<open>StudyDate\<close> and neither removes nor replaces it, the result that the
  engine returns has \<open>StudyDate\<close> = \<open>20210101\<close>.
\<close>

theorem study_date_shift:
  assumes "getitem ds (Keyword ''StudyDate'') = Some (Text ''20210615'')"
    and "anonymize_dicom ANONYMIZATION_RULES ds g = (res, ds', g')"
    and "''StudyDate'' \<in> set (date_shift rs)" and "''StudyDate'' \<notin> set (remove rs)"
    and "''StudyDate'' \<notin> fst ` set (replace rs)"
    and "anonymize_dicom rs ds g = ((True, Inr c2), ds2, g2)"
  shows "\<not> contains ds' (Keyword ''StudyDate'')
       \<and> getitem ds2 (Keyword ''StudyDate'') = Some (Text ''20210101'')"
proof -
  have ds': "ds' = fst (snd (anonymize_dicom ANONYMIZATION_RULES ds g))"
    using assms(2) by simp
  have ds2: "ds2 = fst (snd (anonymize_dicom rs ds g))"
    using assms(6) by simp
  from anonymize_dicom_success[OF assms(6)] obtain s where
    s: "replace_tags rs (remove_tags rs (ds, 0)) = Inr s" by blast
  have "Keyword ''StudyDate'' \<in> Keyword ` set (remove ANONYMIZATION_RULES)"
    by (simp add: ANONYMIZATION_RULES_def)
  then have "\<not> contains ds' (Keyword ''StudyDate'')"
    unfolding ds' by (simp add: contains_after[OF replace_after_remove_default])
  moreover have "getitem ds2 (Keyword ''StudyDate'') = map_option shifted (Some (Text ''20210615''))"
    unfolding ds2 using getitem_after[OF s, of "Keyword ''StudyDate''" g] assms(1,3,4,5)
    by (simp add: image_iff)
  ultimately show ?thesis by (simp add: shifted_def)
qed

theorem study_date_shift_witness:
  "getitem [(Keyword ''StudyDate'', Text ''20210615'')] (Keyword ''StudyDate'')
     = Some (Text ''20210615'')
   \<and> anonymize_dicom ANONYMIZATION_RULES [(Keyword ''StudyDate'', Text ''20210615'')] 0
     = ((True, Inr 1), [], 0)
   \<and> anonymize_dicom \<lparr>remove = [], replace = [], date_shift = [''StudyDate'']\<rparr>
       [(Keyword ''StudyDate'', Text ''20210615'')] 0
     = ((True, Inr 1), [(Keyword ''StudyDate'', Text ''20210101'')], 0)
   \<and> \<not> contains [] (Keyword ''StudyDate'')
   \<and> getitem [(Keyword ''StudyDate'', Text ''20210101'')] (Keyword ''StudyDate'')
     = Some (Text ''20210101'')"
proof -
  let ?ds = "[(Keyword ''StudyDate'', Text ''20210615'')]"
  let ?rs = "\<lparr>remove = [], replace = [], date_shift = [''StudyDate'']\<rparr>"
  have a: "getitem ?ds (Keyword ''StudyDate'') = Some (Text ''20210615'')"
    by (simp add: getitem_def)
  have b: "anonymize_dicom ANONYMIZATION_RULES ?ds 0 = ((True, Inr 1), [], 0)"
    by (simp add: engine_eval)
  have c: "anonymize_dicom ?rs ?ds 0
     = ((True, Inr 1), [(Keyword ''StudyDate'', Text ''20210101'')], 0)"
    by (simp add: engine_eval)
  have d: "''StudyDate'' \<in> set (date_shift ?rs)" "''StudyDate'' \<notin> set (remove ?rs)"
    "''StudyDate'' \<notin> fst ` set (replace ?rs)"
    by simp_all
  show ?thesis
    using a b c study_date_shift[OF a b d c] by simp
qed

theorem study_date_removed_example:
  "anonymize_dicom ANONYMIZATION_RULES [(Keyword ''StudyDate'', Text ''20210615'')] 0
     = ((True, Inr 1), [], 0)
   \<and> getitem (fst (snd (anonymize_dicom ANONYMIZATION_RULES
         [(Keyword ''StudyDate'', Text ''20210615'')] 0)))
       (Keyword ''StudyDate'') \<noteq> Some (Text ''20210101'')"
  by (simp add: engine_eval)

section \<open>The date shift\<close>




section \<open>What the engine returns\<close>

text \<open>
  Claim C5, as amended. No exception leaves \<^verbatim>\<open>anonymize_dicom\<close>. Under the default rule
  set, on a dataset whose \<open>SOPInstanceUID\<close> cannot be read it returns
  \<^verbatim>\<open>(False, message)\<close> with the text of that exception, after it has deleted the
  remove-list and private attributes, shifted the dates and drawn one identifier; on any
  other dataset it returns \<^verbatim>\<open>(True, c)\<close> with \<open>c\<close> at most the number of attributes the
  dataset had.
\<close>

theorem anonymize_dicom_outcome:
  "(malformed_text (getitem ds (Keyword ''SOPInstanceUID'')) = Some msg \<longrightarrow>
      anonymize_dicom ANONYMIZATION_RULES ds g =
        ((False, Inl msg),
         fst (purge_private (shift_dates ANONYMIZATION_RULES
                (remove_tags ANONYMIZATION_RULES (ds, 0)))),
         Suc g))
   \<and> (malformed_text (getitem ds (Keyword ''SOPInstanceUID'')) = None \<longrightarrow>
      (\<exists>c ds' g'. anonymize_dicom ANONYMIZATION_RULES ds g = ((True, Inr c), ds', g')
         \<and> c \<le> length ds))"
  using default_failure[of ds msg g] default_success[of ds g] default_count_bound[of ds]
  by auto

theorem anonymize_dicom_outcome_witness:
  "malformed_text (getitem [(Keyword ''SOPInstanceUID'', Malformed ''bad UID''),
       (Keyword ''PatientName'', Text ''Doe'')] (Keyword ''SOPInstanceUID'')) = Some ''bad UID''
   \<and> anonymize_dicom ANONYMIZATION_RULES [(Keyword ''SOPInstanceUID'', Malformed ''bad UID''),
       (Keyword ''PatientName'', Text ''Doe'')] 4
      = ((False, Inl ''bad UID''), [(Keyword ''SOPInstanceUID'', Malformed ''bad UID'')], 5)
   \<and> malformed_text (getitem [(Keyword ''SOPInstanceUID'', Text ''1.2.3''),
       (Keyword ''PatientName'', Text ''Doe'')] (Keyword ''SOPInstanceUID'')) = None
   \<and> (\<exists>c ds' g'. anonymize_dicom ANONYMIZATION_RULES [(Keyword ''SOPInstanceUID'', Text ''1.2.3''),
       (Keyword ''PatientName'', Text ''Doe'')] 4 = ((True, Inr c), ds', g') \<and> c \<le> 2)"
proof -
  let ?bad = "[(Keyword ''SOPInstanceUID'', Malformed ''bad UID''), (Keyword ''PatientName'', Text ''Doe'')]"
  let ?good = "[(Keyword ''SOPInstanceUID'', Text ''1.2.3''), (Keyword ''PatientName'', Text ''Doe'')]"
  have a: "malformed_text (getitem ?bad (Keyword ''SOPInstanceUID'')) = Some ''bad UID''"
    by (simp add: getitem_def)
  have b: "malformed_text (getitem ?good (Keyword ''SOPInstanceUID'')) = None"
    by (simp add: getitem_def)
  have m: "fst (purge_private (shift_dates ANONYMIZATION_RULES
                (remove_tags ANONYMIZATION_RULES (?bad, 0))))
         = [(Keyword ''SOPInstanceUID'', Malformed ''bad UID'')]"
    by (simp add: engine_eval)
  from anonymize_dicom_outcome[of ?bad "''bad UID''" 4] a m
  have 1: "anonymize_dicom ANONYMIZATION_RULES ?bad 4
      = ((False, Inl ''bad UID''), [(Keyword ''SOPInstanceUID'', Malformed ''bad UID'')], 5)"
    by simp
  from anonymize_dicom_outcome[of ?good "''x''" 4] b
  have 2: "\<exists>c ds' g'. anonymize_dicom ANONYMIZATION_RULES ?good 4 = ((True, Inr c), ds', g') \<and> c \<le> 2"
    by (simp add: numeral_2_eq_2)
  from a b 1 2 show ?thesis by blast
qed

text \<open>
  The claim as written promises \<^verbatim>\<open>ok=true\<close> for every record that can be enumerated, and
  the bound for every rule set: a dataset of three attributes with an unreadable
  \<open>SOPInstanceUID\<close> gets \<^verbatim>\<open>(False, message)\<close>, and a rule set that replaces and shifts the
  same identifier counts one attribute twice.
\<close>

theorem unreadable_uid_fails:
  "anonymize_dicom ANONYMIZATION_RULES
     [(Keyword ''SOPInstanceUID'', Malformed ''bad UID''), (Keyword ''PatientName'', Text ''Doe''),
      (Keyword ''Modality'', Text ''CT'')] 0
   = ((False, Inl ''bad UID''),
      [(Keyword ''SOPInstanceUID'', Malformed ''bad UID''), (Keyword ''Modality'', Text ''CT'')], 1)
   \<and> anonymize_dicom \<lparr>remove = [], replace = [(''PatientID'', ''ANON-ID-001'')],
         date_shift = [''PatientID'']\<rparr>
       [(Keyword ''PatientID'', Text ''7'')] 0
     = ((True, Inr 2), [(Keyword ''PatientID'', Text ''ANON0101'')], 0)"
  by (simp add: engine_eval)

section \<open>The batch run\<close>

text \<open>
  Claim C6. When a run finishes with status success, the statistics it hands over satisfy
  \<open>successful + failed = total\<close>, and \<open>total\<close> is the number of files that discovery
  returns on the same input tree.
\<close>

theorem batch_statistics_invariant:
  assumes "Finished (Success st) \<in> set (signals (run e input_dir output_dir g))"
  shows "successful st + failed st = total st
       \<and> (\<exists>dicom_files. find_dicom_files (tree e) input_dir = Inr dicom_files
             \<and> total st = length dicom_files)"
proof (cases "find_dicom_files (tree e) input_dir")
  case (Inl msg)
  with assms show ?thesis by (simp add: run_discovery_raises)
next
  case (Inr dicom_files)
  show ?thesis
  proof (cases "dicom_files = []")
    case True
    with Inr assms show ?thesis by (simp add: run_empty)
  next
    case False
    show ?thesis
    proof (cases "mkdir_error e output_dir")
      case (Some msg)
      with Inr False assms show ?thesis by (simp add: run_def)
    next
      case None
      from run_stats[OF Inr False None, of g] assms Inr show ?thesis by auto
    qed
  qed
qed

theorem batch_statistics_invariant_witness:
  "Finished (Success \<lparr>total = 2, successful = 1, failed = 1, total_tags_removed = 1,
        errors = [''a.dcm: Error loading DICOM: bad file'']\<rparr>)
     \<in> set (signals (run
         \<lparr>tree = Dir [(''in'', Dir [(''b.dcm'', File), (''a.dcm'', File)])],
          dcmread = (\<lambda>p. if p = [''in'', ''a.dcm''] then Inl ''bad file''
                     else Inr [(Keyword ''PatientName'', Text ''Doe''),
                               (Keyword ''Modality'', Text ''CT'')]),
          mkdir_error = (\<lambda>p. None), save_error = (\<lambda>p. None)\<rparr> [''in''] [''out''] 0))
   \<and> find_dicom_files (Dir [(''in'', Dir [(''b.dcm'', File), (''a.dcm'', File)])]) [''in'']
       = Inr [[''in'', ''a.dcm''], [''in'', ''b.dcm'']]"
proof -
  let ?e = "\<lparr>tree = Dir [(''in'', Dir [(''b.dcm'', File), (''a.dcm'', File)])],
          dcmread = (\<lambda>p. if p = [''in'', ''a.dcm''] then Inl ''bad file''
                     else Inr [(Keyword ''PatientName'', Text ''Doe''),
                               (Keyword ''Modality'', Text ''CT'')]),
          mkdir_error = (\<lambda>p. None), save_error = (\<lambda>p. None)\<rparr>"
  let ?st = "\<lparr>total = 2, successful = 1, failed = 1, total_tags_removed = 1,
        errors = [''a.dcm: Error loading DICOM: bad file'']\<rparr>"
  have h: "Finished (Success ?st) \<in> set (signals (run ?e [''in''] [''out''] 0))"
    by (simp add: run_eval engine_eval)
  have f: "find_dicom_files (Dir [(''in'', Dir [(''b.dcm'', File), (''a.dcm'', File)])]) [''in'']
       = Inr [[''in'', ''a.dcm''], [''in'', ''b.dcm'']]"
    by (simp add: run_eval)
  from batch_statistics_invariant[OF h] h f show ?thesis by simp
qed

text \<open>
  Claim C7 asks for a progress update and a status line after every file, failed or not.
  The run below has one file, which loads and on which the engine fails: the failure branch
  ends the iteration with \<^verbatim>\<open>continue\<close>, and the run emits its final report and nothing
  before it (\<open>engine_failure_step\<close> is the step in general; after a load failure the two
  signals are emitted, \<open>load_failure_step\<close>).
\<close>

theorem engine_failure_emits_nothing:
  "run \<lparr>tree = Dir [(''in'', Dir [(''a.dcm'', File)])],
        dcmread = (\<lambda>p. Inr [(Keyword ''SOPInstanceUID'', Malformed ''boom''),
                            (Keyword ''PatientName'', Text ''Doe'')]),
        mkdir_error = (\<lambda>p. None), save_error = (\<lambda>p. None)\<rparr> [''in''] [''out''] 0
   = \<lparr>signals = [Finished (Success \<lparr>total = 1, successful = 0, failed = 1,
         total_tags_removed = 0, errors = [''a.dcm: boom'']\<rparr>)],
       fs_ops = [Mkdir [''out'']], gen = 1\<rparr>"
  by (simp add: run_eval engine_eval)

text \<open>
  Claim C8. When discovery finds files and the output directory can be made, the run ends
  with status success whatever happens to the single files; the error list holds, in file
  order, one entry for each file that failed and none for the others, and \<open>failed\<close> is its
  length. The entry of a load error is the file name, \<open>: Error loading DICOM: \<close> and the
  text of the error; the entry of an engine error is the file name, \<open>: \<close> and the text
  that the engine returned.
\<close>

theorem per_file_failure_recorded:
  assumes "find_dicom_files (tree e) input_dir = Inr dicom_files" and "dicom_files \<noteq> []"
    and "mkdir_error e output_dir = None"
  shows "(\<exists>st. last (signals (run e input_dir output_dir g)) = Finished (Success st)
          \<and> total st = length dicom_files
          \<and> errors st = List.map_filter (failure_entry e input_dir output_dir) dicom_files
          \<and> failed st = length (errors st))
       \<and> (dcmread e p = Inl msg \<longrightarrow>
            failure_entry e input_dir output_dir p
              = Some (file_name p @ '': Error loading DICOM: '' @ msg))
       \<and> (dcmread e p = Inr ds
            \<and> anonymize_dicom ANONYMIZATION_RULES ds g0 = ((False, Inl msg), ds', g1) \<longrightarrow>
            failure_entry e input_dir output_dir p = Some (file_name p @ '': '' @ msg))"
proof -
  from run_stats[OF assms, of g]
  have 1: "\<exists>st. last (signals (run e input_dir output_dir g)) = Finished (Success st)
          \<and> total st = length dicom_files
          \<and> errors st = List.map_filter (failure_entry e input_dir output_dir) dicom_files
          \<and> failed st = length (errors st)"
    by blast
  have 2: "dcmread e p = Inl msg \<Longrightarrow>
            failure_entry e input_dir output_dir p
              = Some (file_name p @ '': Error loading DICOM: '' @ msg)"
    by (simp add: failure_entry_def failure_text_def)
  have 3: "failure_entry e input_dir output_dir p = Some (file_name p @ '': '' @ msg)"
    if r: "dcmread e p = Inr ds"
      and a: "anonymize_dicom ANONYMIZATION_RULES ds g0 = ((False, Inl msg), ds', g1)"
  proof (cases "malformed_text (getitem ds (Keyword ''SOPInstanceUID''))")
    case None
    from default_success[OF None, of g0] a show ?thesis by auto
  next
    case (Some m)
    from default_failure[OF Some, of g0] a have "m = msg" by simp
    with Some r show ?thesis by (simp add: failure_entry_def failure_text_def)
  qed
  from 1 2 3 show ?thesis by blast
qed

theorem per_file_failure_recorded_witness:
  "find_dicom_files (Dir [(''in'', Dir [(''b.dcm'', File), (''a.dcm'', File)])]) [''in'']
     = Inr [[''in'', ''a.dcm''], [''in'', ''b.dcm'']]
   \<and> anonymize_dicom ANONYMIZATION_RULES [(Keyword ''SOPInstanceUID'', Malformed ''boom'')] 0
     = ((False, Inl ''boom''), [(Keyword ''SOPInstanceUID'', Malformed ''boom'')], 1)
   \<and> (\<exists>st. last (signals (run
         \<lparr>tree = Dir [(''in'', Dir [(''b.dcm'', File), (''a.dcm'', File)])],
          dcmread = (\<lambda>p. if p = [''in'', ''a.dcm''] then Inl ''bad file''
                     else Inr [(Keyword ''SOPInstanceUID'', Malformed ''boom'')]),
          mkdir_error = (\<lambda>p. None), save_error = (\<lambda>p. None)\<rparr> [''in''] [''out''] 0))
        = Finished (Success st)
      \<and> total st = 2
      \<and> errors st = [''a.dcm: Error loading DICOM: bad file'', ''b.dcm: boom'']
      \<and> failed st = 2)"
proof -
  let ?e = "\<lparr>tree = Dir [(''in'', Dir [(''b.dcm'', File), (''a.dcm'', File)])],
          dcmread = (\<lambda>p. if p = [''in'', ''a.dcm''] then Inl ''bad file''
                     else Inr [(Keyword ''SOPInstanceUID'', Malformed ''boom'')]),
          mkdir_error = (\<lambda>p. None), save_error = (\<lambda>p. None)\<rparr>"
  let ?files = "[[''in'', ''a.dcm''], [''in'', ''b.dcm'']]"
  have f: "find_dicom_files (tree ?e) [''in''] = Inr ?files"
    by (simp add: run_eval)
  have h2: "?files \<noteq> []" by simp
  have h3: "mkdir_error ?e [''out''] = None"
    by simp
  have a: "dcmread ?e [''in'', ''a.dcm''] = Inl ''bad file''"
    and b: "dcmread ?e [''in'', ''b.dcm''] = Inr [(Keyword ''SOPInstanceUID'', Malformed ''boom'')]"
    by simp_all
  have c: "anonymize_dicom ANONYMIZATION_RULES [(Keyword ''SOPInstanceUID'', Malformed ''boom'')] 0
     = ((False, Inl ''boom''), [(Keyword ''SOPInstanceUID'', Malformed ''boom'')], 1)"
    by (simp add: engine_eval)
  note t = per_file_failure_recorded[OF f h2 h3, of 0]
  from t[of "[''in'', ''a.dcm'']" "''bad file''" "[]" 0 "[]" 0] a
  have ea: "failure_entry ?e [''in''] [''out''] [''in'', ''a.dcm'']
      = Some (''a.dcm: Error loading DICOM: bad file'')"
    by (simp add: file_name_def)
  from t[of "[''in'', ''b.dcm'']" "''boom''" "[(Keyword ''SOPInstanceUID'', Malformed ''boom'')]" 0
        "[(Keyword ''SOPInstanceUID'', Malformed ''boom'')]" 1] b c
  have eb: "failure_entry ?e [''in''] [''out''] [''in'', ''b.dcm''] = Some (''b.dcm: boom'')"
    by (simp add: file_name_def)
  from t[of "[]" "[]" "[]" 0 "[]" 0] obtain st where
    "last (signals (run ?e [''in''] [''out''] 0)) = Finished (Success st)"
    "total st = length ?files"
    "errors st = List.map_filter (failure_entry ?e [''in''] [''out'']) ?files"
    "failed st = length (errors st)"
    by blast
  then have "last (signals (run ?e [''in''] [''out''] 0)) = Finished (Success st)
      \<and> total st = 2
      \<and> errors st = [''a.dcm: Error loading DICOM: bad file'', ''b.dcm: boom'']
      \<and> failed st = 2"
    using ea eb by (simp add: List.map_filter_simps)
  with f c show ?thesis by auto
qed

text \<open>
  Claim C9. When discovery finds no file, the run emits the error
  \<open>No DICOM files found\<close> and nothing else: no file is read, no directory is made, the UID
  generator is not used.
\<close>

theorem no_records_found:
  assumes "find_dicom_files (tree e) input_dir = Inr []"
  shows "run e input_dir output_dir g =
     \<lparr>signals = [Finished (Failure ''No DICOM files found'')], fs_ops = [], gen = g\<rparr>"
  using assms by (rule run_empty)

theorem no_records_found_witness:
  "find_dicom_files (Dir [(''in'', Dir [(''notes.txt'', File)])]) [''in''] = Inr []
   \<and> run \<lparr>tree = Dir [(''in'', Dir [(''notes.txt'', File)])],
          dcmread = (\<lambda>p. Inl ''unused''),
          mkdir_error = (\<lambda>p. None), save_error = (\<lambda>p. None)\<rparr> [''in''] [''out''] 0
     = \<lparr>signals = [Finished (Failure ''No DICOM files found'')], fs_ops = [], gen = 0\<rparr>"
proof -
  let ?e = "\<lparr>tree = Dir [(''in'', Dir [(''notes.txt'', File)])],
          dcmread = (\<lambda>p. Inl ''unused''),
          mkdir_error = (\<lambda>p. None), save_error = (\<lambda>p. None)\<rparr>"
  have h: "find_dicom_files (tree ?e) [''in''] = Inr []"
    by (simp add: run_eval)
  from no_records_found[OF h, of "[''out'']" 0] h show ?thesis by simp
qed

text \<open>
  Claim C10, as amended. On a path for which \<^verbatim>\<open>exists()\<close> answers false, discovery returns
  the empty list, and the run over it is the run over an existing empty directory: the
  error \<open>No DICOM files found\<close>. On a path for which \<^verbatim>\<open>exists()\<close> raises, discovery raises
  and the run reports the text of that exception.
\<close>

theorem missing_root_like_empty:
  assumes "path_exists (tree e) input_dir = Inr False"
    and "stat (tree e') input_dir' = Inr (Some (Dir []))"
  shows "find_dicom_files (tree e) input_dir = Inr []
       \<and> run e input_dir output_dir g =
           \<lparr>signals = [Finished (Failure ''No DICOM files found'')], fs_ops = [], gen = g\<rparr>
       \<and> run e input_dir output_dir g = run e' input_dir' output_dir' g
       \<and> (path_exists (tree e2) input_dir2 = Inl msg \<longrightarrow>
            find_dicom_files (tree e2) input_dir2 = Inl msg
            \<and> run e2 input_dir2 output_dir g =
                \<lparr>signals = [Finished (Failure msg)], fs_ops = [], gen = g\<rparr>)"
proof -
  from assms(1) have a: "find_dicom_files (tree e) input_dir = Inr []"
    by (rule find_missing)
  from assms(2) have b: "find_dicom_files (tree e') input_dir' = Inr []"
    by (rule find_empty_dir)
  show ?thesis
    by (simp add: a run_empty[OF a] run_empty[OF b] find_raises run_discovery_raises)
qed

theorem missing_root_like_empty_witness:
  "path_exists (Dir [(''in'', Dir []), (''vault'', Locked)]) [''nowhere''] = Inr False
   \<and> stat (Dir [(''in'', Dir []), (''vault'', Locked)]) [''in''] = Inr (Some (Dir []))
   \<and> path_exists (Dir [(''in'', Dir []), (''vault'', Locked)]) [''vault'', ''scans'']
       = Inl (os_message EACCES [''vault'', ''scans''])
   \<and> find_dicom_files (Dir [(''in'', Dir []), (''vault'', Locked)]) [''nowhere''] = Inr []
   \<and> run \<lparr>tree = Dir [(''in'', Dir []), (''vault'', Locked)], dcmread = (\<lambda>p. Inl ''unused''),
          mkdir_error = (\<lambda>p. None), save_error = (\<lambda>p. None)\<rparr> [''nowhere''] [''out''] 0
     = run \<lparr>tree = Dir [(''in'', Dir []), (''vault'', Locked)], dcmread = (\<lambda>p. Inl ''unused''),
          mkdir_error = (\<lambda>p. None), save_error = (\<lambda>p. None)\<rparr> [''in''] [''out''] 0
   \<and> run \<lparr>tree = Dir [(''in'', Dir []), (''vault'', Locked)], dcmread = (\<lambda>p. Inl ''unused''),
          mkdir_error = (\<lambda>p. None), save_error = (\<lambda>p. None)\<rparr> [''vault'', ''scans''] [''out''] 0
     = \<lparr>signals = [Finished (Failure (os_message EACCES [''vault'', ''scans'']))],
        fs_ops = [], gen = 0\<rparr>"
proof -
  let ?e = "\<lparr>tree = Dir [(''in'', Dir []), (''vault'', Locked)], dcmread = (\<lambda>p. Inl ''unused''),
          mkdir_error = (\<lambda>p. None), save_error = (\<lambda>p. None)\<rparr>"
  have h1: "path_exists (tree ?e) [''nowhere''] = Inr False"
    by (simp add: path_exists_def)
  have h2: "stat (tree ?e) [''in''] = Inr (Some (Dir []))"
    by simp
  have h3: "path_exists (tree ?e) [''vault'', ''scans'']
       = Inl (os_message EACCES [''vault'', ''scans''])"
    by (simp add: path_exists_def)
  from missing_root_like_empty[OF h1 h2, of "[''out'']" 0 "[''out'']" ?e "[''vault'', ''scans'']"
      "os_message EACCES [''vault'', ''scans'']"] h3
  have "find_dicom_files (tree ?e) [''nowhere''] = Inr []"
    and "run ?e [''nowhere''] [''out''] 0 = run ?e [''in''] [''out''] 0"
    and "run ?e [''vault'', ''scans''] [''out''] 0
     = \<lparr>signals = [Finished (Failure (os_message EACCES [''vault'', ''scans'']))],
        fs_ops = [], gen = 0\<rparr>"
    by blast+
  with h1 h2 h3 show ?thesis by simp
qed

text \<open>
  The claim as written covers every path that does not exist: a name of 256 characters
  names nothing, \<^verbatim>\<open>exists()\<close> raises on it, and the run reports the error of the
  operating system.
\<close>

theorem long_name_root_raises:
  "map_of ([] :: (string \<times> node) list) (replicate 256 (CHR ''x'')) = None
   \<and> find_dicom_files (Dir []) [replicate 256 (CHR ''x'')]
       = Inl (os_message ENAMETOOLONG [replicate 256 (CHR ''x'')])
   \<and> find_dicom_files (Dir []) [replicate 256 (CHR ''x'')] \<noteq> Inr []
   \<and> signals (run \<lparr>tree = Dir [], dcmread = (\<lambda>p. Inl ''unused''),
          mkdir_error = (\<lambda>p. None), save_error = (\<lambda>p. None)\<rparr>
          [replicate 256 (CHR ''x'')] [''out''] 0)
       \<noteq> [Finished (Failure ''No DICOM files found'')]"
  by (simp add: run_def find_dicom_files_def path_exists_def)

end
